theory Spec2Isabelle
  imports Complex_Main "HOL-Library.Multiset"
begin

section \<open>Proctoring module: the ProctoringManager class\<close>

text \<open>
  The manager owns two things: the connection pool, through which it reads and writes the
  tables \<open>proctoring_sessions\<close> and \<open>proctoring_violations\<close>, and the process-local
  \<open>activeSessions\<close> map. Both are fields of the state record below; every method takes the
  state and returns the new one. \<open>CURRENT_TIMESTAMP\<close> and \<open>new Date()\<close> are the parameter
  \<open>now\<close> of each method.

  The tables follow the \<open>CREATE TABLE\<close> statements of \<open>initialize\<close>:
  \<open>session_id\<close> is \<open>UNIQUE\<close> in \<open>proctoring_sessions\<close>, so that table is a map from the
  session id to the row; \<open>proctoring_violations.session_id\<close> is a foreign key into it, so an
  insert of a violation for an id without a session row is rejected by the store. A
  statement fails only for these two constraints: a lost connection is not modelled.
\<close>

datatype session_status = Active | Completed | Terminated | Paused

datatype proctoring_level = Basic | Standard | Advanced

datatype violation_type =
  tab_switch | window_blur | multiple_faces | no_face | suspicious_audio |
  right_click | copy_paste | fullscreen_exit | browser_dev_tools | external_monitor

datatype severity = SevLow | SevMedium | SevHigh | SevCritical

datatype db_error = ER_DUP_ENTRY | ER_NO_REFERENCED_ROW

text \<open>A row of \<open>proctoring_sessions\<close> (the key \<open>session_id\<close> is the map's argument).\<close>

record session_row =
  user_email :: string
  user_name :: string
  assessment_id :: string
  level :: proctoring_level
  status :: session_status
  start_time :: nat
  end_time :: "nat option"
  violation_count :: int
  strict_mode :: bool
  settings_json :: string
  updated_at :: nat

text \<open>A row of \<open>proctoring_violations\<close>.\<close>

record violation_row =
  v_session_id :: string
  v_type :: violation_type
  v_severity :: severity
  v_description :: string
  v_evidence :: string
  v_auto_flagged :: bool
  v_timestamp :: nat

text \<open>
  The argument of \<open>startSession\<close>. The fields the method destructures with a default are
  options: \<open>None\<close> is a field the caller left out.
\<close>

record session_data =
  sessionId :: string
  userEmail :: string
  userName :: string
  assessmentId :: string
  proctoringLevel :: "proctoring_level option"
  strictMode :: "bool option"
  settings :: "string option"

text \<open>The argument of \<open>logViolation\<close>, with the same reading of the defaults.\<close>

record violation_data =
  violationType :: violation_type
  vd_severity :: "severity option"
  vd_description :: "string option"
  vd_evidence :: "string option"
  vd_autoFlagged :: "bool option"

text \<open>An entry of \<open>session.violations\<close> in the in-memory session.\<close>

record mem_violation =
  mv_type :: violation_type
  mv_severity :: severity
  mv_timestamp :: nat
  mv_description :: string
  mv_evidence :: string

text \<open>A value of the \<open>activeSessions\<close> map: the spread \<open>sessionData\<close> and three more fields.\<close>

record mem_session =
  ms_data :: session_data
  ms_violations :: "mem_violation list"
  ms_startTime :: nat
  ms_lastActivity :: nat

record pstate =
  sessions :: "string \<rightharpoonup> session_row"
  violations_tbl :: "violation_row list"
  activeSessions :: "string \<rightharpoonup> mem_session"

record start_response =
  start_success :: bool
  start_sessionId :: string

record log_response =
  log_success :: bool
  violationCount :: nat

record end_response =
  end_success :: bool
  end_reason :: string

text \<open>What \<open>getSession\<close> resolves to: the session row, the joined count and the violations.\<close>

record session_view =
  sv_row :: session_row
  total_violations :: nat
  sv_violations :: "violation_row list"

definition with_default :: "'a \<Rightarrow> 'a option \<Rightarrow> 'a" where
  "with_default d v = (case v of None \<Rightarrow> d | Some x \<Rightarrow> x)"

definition init_state :: pstate where
  "init_state = \<lparr>sessions = Map.empty, violations_tbl = [], activeSessions = Map.empty\<rparr>"

text \<open>A process restart: the tables stay, the manager is constructed with a new, empty map.\<close>

definition restart :: "pstate \<Rightarrow> pstate" where
  "restart st = st\<lparr>activeSessions := Map.empty\<rparr>"

definition startSession ::
  "nat \<Rightarrow> session_data \<Rightarrow> pstate \<Rightarrow> db_error + (start_response \<times> pstate)" where
  "startSession now sd st =
     (if sessions st (sessionId sd) \<noteq> None then Inl ER_DUP_ENTRY
      else
        let st1 = st\<lparr>sessions := (sessions st)(sessionId sd \<mapsto>
                    \<lparr>user_email = userEmail sd, user_name = userName sd,
                     assessment_id = assessmentId sd,
                     level = with_default Basic (proctoringLevel sd),
                     status = Active, start_time = now, end_time = None,
                     violation_count = 0,
                     strict_mode = with_default False (strictMode sd),
                     settings_json = with_default ''{}'' (settings sd),
                     updated_at = now\<rparr>)\<rparr>;
            st2 = st1\<lparr>activeSessions := (activeSessions st1)(sessionId sd \<mapsto>
                    \<lparr>ms_data = sd, ms_violations = [],
                     ms_startTime = now, ms_lastActivity = now\<rparr>)\<rparr>
        in Inr (\<lparr>start_success = True, start_sessionId = sessionId sd\<rparr>, st2))"

text \<open>
  \<open>endSession\<close>: one \<open>UPDATE ... WHERE session_id = ?\<close>, which changes the row if there is
  one and nothing otherwise, then \<open>activeSessions.delete\<close>. The parameter default
  \<open>reason = 'completed'\<close> applies when the argument is left out (\<open>None\<close>).
\<close>

definition endSession ::
  "nat \<Rightarrow> string \<Rightarrow> string option \<Rightarrow> pstate \<Rightarrow> db_error + (end_response \<times> pstate)" where
  "endSession now sid reason_arg st =
     (let reason = with_default ''completed'' reason_arg;
          st1 = (case sessions st sid of
                   None \<Rightarrow> st
                 | Some row \<Rightarrow> st\<lparr>sessions := (sessions st)(sid \<mapsto>
                     row\<lparr>status := (if reason = ''completed'' then Completed else Terminated),
                         end_time := Some now, updated_at := now\<rparr>)\<rparr>);
          st2 = st1\<lparr>activeSessions := (activeSessions st1)(sid := None)\<rparr>
      in Inr (\<lparr>end_success = True, end_reason = reason\<rparr>, st2))"

definition terminateSession ::
  "nat \<Rightarrow> string \<Rightarrow> string \<Rightarrow> pstate \<Rightarrow> db_error + (end_response \<times> pstate)" where
  "terminateSession now sid reason st = endSession now sid (Some (''terminated_'' @ reason)) st"

text \<open>
  \<open>logViolation\<close>: the insert into \<open>proctoring_violations\<close> (rejected by the foreign key
  when there is no session row, which the method rethrows), the \<open>UPDATE\<close> of the counter,
  then the in-memory part, which runs only when \<open>activeSessions\<close> holds the session.
  The returned count reads the in-memory list, also after \<open>terminateSession\<close> has removed
  the entry from the map (the local variable still holds the object).
\<close>

definition logViolation ::
  "nat \<Rightarrow> string \<Rightarrow> violation_data \<Rightarrow> pstate \<Rightarrow> db_error + (log_response \<times> pstate)" where
  "logViolation now sid vd st =
     (case sessions st sid of
        None \<Rightarrow> Inl ER_NO_REFERENCED_ROW
      | Some row \<Rightarrow>
          let sev = with_default SevMedium (vd_severity vd);
              descr = with_default '''' (vd_description vd);
              evid = with_default ''{}'' (vd_evidence vd);
              st1 = st\<lparr>violations_tbl := violations_tbl st @
                      [\<lparr>v_session_id = sid, v_type = violationType vd, v_severity = sev,
                        v_description = descr, v_evidence = evid,
                        v_auto_flagged = with_default True (vd_autoFlagged vd),
                        v_timestamp = now\<rparr>]\<rparr>;
              st2 = st1\<lparr>sessions := (sessions st1)(sid \<mapsto>
                      row\<lparr>violation_count := violation_count row + 1, updated_at := now\<rparr>)\<rparr>
          in (case activeSessions st2 sid of
                None \<Rightarrow> Inr (\<lparr>log_success = True, violationCount = 0\<rparr>, st2)
              | Some session \<Rightarrow>
                  let session' = session\<lparr>ms_violations := ms_violations session @
                                   [\<lparr>mv_type = violationType vd, mv_severity = sev,
                                     mv_timestamp = now, mv_description = descr,
                                     mv_evidence = evid\<rparr>],
                                   ms_lastActivity := now\<rparr>;
                      st3 = st2\<lparr>activeSessions := (activeSessions st2)(sid \<mapsto> session')\<rparr>;
                      response = \<lparr>log_success = True,
                                  violationCount = length (ms_violations session')\<rparr>
                  in if strictMode (ms_data session') = Some True
                        \<and> length (ms_violations session') \<ge> 3
                     then (case terminateSession now sid ''violation_threshold_exceeded'' st3 of
                             Inl e \<Rightarrow> Inl e
                           | Inr (r, st4) \<Rightarrow> Inr (response, st4))
                     else Inr (response, st3)))"

text \<open>
  \<open>getSession\<close>: the row with \<open>COUNT(pv.id)\<close> over the join, and the session's violations
  newest first (rows with equal timestamps in insertion order reversed; SQL leaves their
  order open). \<open>None\<close> is the \<open>null\<close> the method returns for an unknown id. The evidence
  of a row is the text \<open>logViolation\<close> wrote with \<open>JSON.stringify\<close>; the rows are returned
  with that text, the \<open>JSON.parse\<close> of the method is not modelled.
\<close>

definition session_violations :: "string \<Rightarrow> pstate \<Rightarrow> violation_row list" where
  "session_violations sid st = filter (\<lambda>v. v_session_id v = sid) (violations_tbl st)"

definition getSession :: "string \<Rightarrow> pstate \<Rightarrow> db_error + session_view option" where
  "getSession sid st =
     (case sessions st sid of
        None \<Rightarrow> Inr None
      | Some row \<Rightarrow>
          Inr (Some \<lparr>sv_row = row,
                     total_violations = length (session_violations sid st),
                     sv_violations = rev (sort_key v_timestamp (session_violations sid st))\<rparr>))"

text \<open>
  One successful call of a method, or a restart of the process, is a step of the manager.
  A call that throws leaves both tables and the map as they were (the only statement that
  can be rejected is the first one of the method), so it is no step.
\<close>

inductive step :: "pstate \<Rightarrow> pstate \<Rightarrow> bool" where
  step_start: "startSession now sd st = Inr (r, st') \<Longrightarrow> step st st'"
| step_log: "logViolation now sid vd st = Inr (lr, st') \<Longrightarrow> step st st'"
| step_end: "endSession now sid reason_arg st = Inr (er, st') \<Longrightarrow> step st st'"
| step_restart: "step st (restart st)"

text \<open>
  What holds in every state the manager can reach from empty tables: the counter column of
  a session equals the number of its violation rows, a session held in \<open>activeSessions\<close>
  has an active row and as many in-memory violations as stored ones, and every violation
  row belongs to a session row.
\<close>

definition cache_consistent :: "pstate \<Rightarrow> bool" where
  "cache_consistent st \<longleftrightarrow>
     (\<forall>sid row. sessions st sid = Some row \<longrightarrow>
        violation_count row = int (length (session_violations sid st)))
   \<and> (\<forall>sid session. activeSessions st sid = Some session \<longrightarrow>
        (\<exists>row. sessions st sid = Some row \<and> status row = Active)
        \<and> length (ms_violations session) = length (session_violations sid st))
   \<and> (\<forall>v \<in> set (violations_tbl st). sessions st (v_session_id v) \<noteq> None)"

text \<open>
  The state after a call (the state before it when the call throws), and what the call
  answered (\<open>None\<close> when it throws).
\<close>

definition state_after :: "pstate \<Rightarrow> db_error + ('r \<times> pstate) \<Rightarrow> pstate" where
  "state_after st res = (case res of Inl e \<Rightarrow> st | Inr (r, st') \<Rightarrow> st')"

definition response_of :: "db_error + ('r \<times> pstate) \<Rightarrow> 'r option" where
  "response_of res = (case res of Inl e \<Rightarrow> None | Inr (r, st') \<Rightarrow> Some r)"

text \<open>
  A concrete run used to evaluate the methods: one strict-mode session, started at time
  100, with violations logged at 101 and 102, or ended at 105.
\<close>

definition demo_data :: session_data where
  "demo_data = \<lparr>sessionId = ''sess-1'', userEmail = ''p@example.com'', userName = ''P'',
                 assessmentId = ''javascript'', proctoringLevel = None,
                 strictMode = Some True, settings = None\<rparr>"

definition demo_violation :: "violation_type \<Rightarrow> violation_data" where
  "demo_violation t = \<lparr>violationType = t, vd_severity = None, vd_description = None,
                         vd_evidence = None, vd_autoFlagged = None\<rparr>"

definition demo_started :: pstate where
  "demo_started = state_after init_state (startSession 100 demo_data init_state)"

definition demo_one_logged :: pstate where
  "demo_one_logged =
     state_after demo_started (logViolation 101 ''sess-1'' (demo_violation tab_switch) demo_started)"

definition demo_two_logged :: pstate where
  "demo_two_logged =
     state_after demo_one_logged (logViolation 102 ''sess-1'' (demo_violation no_face) demo_one_logged)"

definition demo_ended :: pstate where
  "demo_ended = state_after demo_started (endSession 105 ''sess-1'' None demo_started)"

section \<open>Quiz randomization (server.js)\<close>

text \<open>
  \<open>shuffleArray\<close> draws from \<open>Math.random()\<close>. The draws are made explicit: a generator is
  the sequence of the values the successive calls return, \<open>g 0\<close> first, and every function
  that draws returns the rest of the sequence. \<open>Math.random()\<close> returns a number in
  \<open>[0, 1)\<close>, which is the predicate \<open>unit_interval\<close>; the numbers are taken as reals.

  The loop \<open>for (let i = shuffled.length - 1; i > 0; i--)\<close> is \<open>shuffle_from\<close>, started at
  \<open>length - 1\<close>: at \<open>Suc k\<close> it swaps positions \<open>Suc k\<close> and
  \<open>Math.floor(Math.random() * (Suc k + 1))\<close> of the copy and goes on at \<open>k\<close>; at 0 it stops.
\<close>

type_synonym rng = "nat \<Rightarrow> real"

definition unit_interval :: "rng \<Rightarrow> bool" where
  "unit_interval g \<longleftrightarrow> (\<forall>n. 0 \<le> g n \<and> g n < 1)"

definition next_rng :: "rng \<Rightarrow> rng" where
  "next_rng g = (\<lambda>n. g (Suc n))"

definition random_index :: "real \<Rightarrow> nat \<Rightarrow> nat" where
  "random_index r i = nat \<lfloor>r * real (i + 1)\<rfloor>"

text \<open>
  \<open>[shuffled[i], shuffled[j]] = [shuffled[j], shuffled[i]]\<close>: both right-hand values are
  read before the two writes. With a draw in \<open>[0, 1)\<close> the index \<open>j\<close> is at most \<open>i\<close>
  (lemma \<open>random_index_le\<close>), so both positions are inside the array.
\<close>

definition swap :: "'a list \<Rightarrow> nat \<Rightarrow> nat \<Rightarrow> 'a list" where
  "swap xs i j = xs[i := xs ! j, j := xs ! i]"

fun shuffle_from :: "nat \<Rightarrow> rng \<Rightarrow> 'a list \<Rightarrow> 'a list \<times> rng" where
  "shuffle_from 0 g shuffled = (shuffled, g)"
| "shuffle_from (Suc k) g shuffled =
     shuffle_from k (next_rng g) (swap shuffled (Suc k) (random_index (g 0) (Suc k)))"

definition shuffleArray :: "rng \<Rightarrow> 'a list \<Rightarrow> 'a list \<times> rng" where
  "shuffleArray g array = shuffle_from (length array - 1) g array"

text \<open>
  A question of a quiz is a JSON object. The record has the keys the code reads or writes
  as fields; a key that may be missing is an option, and \<open>options\<close>, which the code tests
  with \<open>Array.isArray\<close>, is missing or falsy (\<open>NoOptions\<close>), some other value
  (\<open>NotArray\<close>) or an array of strings. \<open>bucket_fields\<close> holds the columns of the bucket
  question that \<open>{...q}\<close> copies when a quiz is composed from a bucket. The rows of the
  tables \<open>questions\<close> and \<open>question_buckets\<close> come first; the four counters of a bucket
  are nullable \<open>INT\<close> columns.
\<close>

datatype difficulty = Easy | Medium | Hard

record bucket_question =
  q_id :: nat
  bucket_id :: nat
  question_text :: string
  q_options :: string
  correct_answer :: int
  q_difficulty :: difficulty
  q_points :: "int option"
  is_active :: bool

record bucket_row =
  bucket_name :: string
  total_questions :: "int option"
  easy_count :: "int option"
  medium_count :: "int option"
  hard_count :: "int option"

datatype options_field = NoOptions | NotArray string | OptionArray "string list"

record quiz_question =
  question :: "string option"
  options :: options_field
  correct :: "int option"
  originalOrder :: "string list option"
  points :: "int option"
  bucket_fields :: "bucket_question option"

text \<open>
  \<open>Array.prototype.indexOf\<close> is the first index that holds the value, and -1 when no
  index does. The read \<open>question.options[question.correct]\<close> is \<open>element_at\<close>: it is
  undefined (\<open>None\<close>) when \<open>correct\<close> is missing or not an index of the array, and
  \<open>indexOf\<close> of undefined in an array of strings is -1.
\<close>

fun indexOf :: "'a list \<Rightarrow> 'a \<Rightarrow> int" where
  "indexOf [] v = - 1"
| "indexOf (x # xs) v =
     (if x = v then 0 else (let k = indexOf xs v in if k < 0 then - 1 else k + 1))"

definition element_at :: "'a list \<Rightarrow> int option \<Rightarrow> 'a option" where
  "element_at xs i =
     (case i of
        None \<Rightarrow> None
      | Some k \<Rightarrow> if 0 \<le> k \<and> k < int (length xs) then Some (xs ! nat k) else None)"

definition randomizeQuestionOptions ::
  "rng \<Rightarrow> 'a quiz_question_scheme \<Rightarrow> 'a quiz_question_scheme \<times> rng" where
  "randomizeQuestionOptions g q =
     (case options q of
        OptionArray opts \<Rightarrow>
          let correctAnswer = element_at opts (correct q);
              (shuffledOptions, g') = shuffleArray g opts;
              newCorrectIndex = (case correctAnswer of
                                   None \<Rightarrow> - 1
                                 | Some a \<Rightarrow> indexOf shuffledOptions a)
          in (q\<lparr>options := OptionArray shuffledOptions, correct := Some newCorrectIndex,
                originalOrder := Some opts\<rparr>, g')
      | _ \<Rightarrow> (q, g))"

text \<open>
  \<open>processedQuestions.map(randomizeQuestionOptions)\<close>, the draws passed on from one
  question to the next. The parameter defaults of \<open>randomizeQuiz\<close> (\<open>true\<close>, \<open>true\<close>,
  \<open>null\<close>) apply to an argument that is undefined (\<open>None\<close>).
\<close>

fun map_rng :: "(rng \<Rightarrow> 'a \<Rightarrow> 'b \<times> rng) \<Rightarrow> rng \<Rightarrow> 'a list \<Rightarrow> 'b list \<times> rng" where
  "map_rng f g [] = ([], g)"
| "map_rng f g (x # xs) =
     (let (y, g1) = f g x; (ys, g2) = map_rng f g1 xs in (y # ys, g2))"










text \<open>
  \<open>option_shuffled q q'\<close>: \<open>q'\<close> is \<open>q\<close> with its options permuted, its \<open>correct\<close> index
  pointing at the same value and \<open>originalOrder\<close> set; or \<open>q\<close> itself when \<open>q\<close> has no
  array of options.
\<close>

definition option_shuffled :: "'a quiz_question_scheme \<Rightarrow> 'a quiz_question_scheme \<Rightarrow> bool" where
  "option_shuffled q q' \<longleftrightarrow>
     (case options q of
        OptionArray opts \<Rightarrow>
          question q' = question q \<and> points q' = points q
          \<and> bucket_fields q' = bucket_fields q
          \<and> quiz_question.more q' = quiz_question.more q
          \<and> originalOrder q' = Some opts
          \<and> (case options q' of
                OptionArray shuffled \<Rightarrow>
                  mset shuffled = mset opts
                  \<and> element_at shuffled (correct q') = element_at opts (correct q)
              | _ \<Rightarrow> False)
      | _ \<Rightarrow> q' = q)"


section \<open>Randomization on a heap\<close>

text \<open>
  The same three functions once more, with the arrays and objects they work on kept in a
  heap, to follow what they write. A cell of the heap is an array or a question object;
  an element of an array is a string or a reference; a question object refers to its array
  of options and, in \<open>originalOrder\<close>, to the array it was shuffled from. \<open>[...array]\<close>,
  \<open>.map\<close>, \<open>.slice\<close> and \<open>{...question, ...}\<close> allocate a new cell; the only write to
  an existing cell is the swap in the loop of \<open>shuffleArray\<close>, on its own copy. A question
  that has no array of options is returned as the same reference.

  \<open>read_questions\<close> reads an array of questions out of the heap as the list of question
  values of the sections above; \<open>wf_input\<close> says that an address holds an array of
  references to question objects whose options and original order, where present, are
  arrays of strings; \<open>represents h p qs\<close> that the array at \<open>p\<close> is such an array and reads
  as \<open>qs\<close>; \<open>heap_le h h'\<close> that \<open>h'\<close> has every cell of \<open>h\<close> unchanged and possibly
  more.
\<close>

datatype js_elem = Str string | Ref nat












definition read_string :: "js_elem \<Rightarrow> string" where
  "read_string e = (case e of Str s \<Rightarrow> s | Ref r \<Rightarrow> [])"










section \<open>Quiz store and its routes (server.js)\<close>

text \<open>
  The \<open>questions\<close> column of a quiz arrives from the driver as text, as an array, or as
  something else; the route branches on these three. \<open>JSON.parse\<close> is a parameter of the
  routes that call it: on the text of a quiz it throws (\<open>SyntaxError\<close>) or returns an array
  of questions or \<open>null\<close>; other parsed values are left out of the model. A reply is the
  body sent with \<open>res.json\<close>, or a status code with an error text.

  \<open>updateBucketCounts\<close> runs one aggregate query over the active questions of the bucket and
  writes its single result row into the bucket. In SQL, \<open>COUNT(*)\<close> over no rows is 0 and
  \<open>SUM(...)\<close> over no rows is \<open>NULL\<close>, here \<open>None\<close>.

  \<open>create_quiz_from_bucket\<close> is the handler of \<open>POST /api/admin/quizzes/from-bucket\<close>:
  it maps the \<open>selectedQuestions\<close> of the request body (none when the key is missing),
  inserts the quiz (rejected when the id exists) and then the mapping row (rejected by its
  foreign key when the bucket does not exist; the quiz row stays, the two inserts are not
  in one transaction). \<open>get_quiz\<close> is the handler of \<open>GET /api/quizzes/:id\<close>, with the
  settings it resolves before its inner \<open>try\<close> block as the argument \<open>ds\<close>; reading
  \<open>length\<close> of a parsed \<open>null\<close> throws inside the same block as \<open>JSON.parse\<close> does.
\<close>

datatype stored_questions = AsText string | AsArray "quiz_question list" | AsOther

record quiz_row =
  quiz_name :: string
  quiz_description :: string
  quiz_questions :: stored_questions
  points_per_question :: "int option"
  is_custom :: bool
  randomization_settings :: "string option"
  proctoring_settings :: "string option"

record mapping_row =
  m_quiz_id :: string
  m_bucket_id :: nat
  m_easy_count :: int
  m_medium_count :: int
  m_hard_count :: int
  m_total_questions :: int

record qstate =
  quizzes :: "string \<rightharpoonup> quiz_row"
  question_buckets :: "nat \<rightharpoonup> bucket_row"
  questions_tbl :: "bucket_question list"
  quiz_bucket_mappings :: "mapping_row list"

datatype 'a reply = Ok 'a | Failed nat string

subsection \<open>Bucket counts\<close>

definition sql_sum :: "int list \<Rightarrow> int option" where
  "sql_sum vs = (if vs = [] then None else Some (sum_list vs))"

definition active_in_bucket :: "nat \<Rightarrow> qstate \<Rightarrow> bucket_question list" where
  "active_in_bucket bucketId st =
     filter (\<lambda>q. bucket_id q = bucketId \<and> is_active q) (questions_tbl st)"

definition tier_sum :: "difficulty \<Rightarrow> bucket_question list \<Rightarrow> int option" where
  "tier_sum d rows = sql_sum (map (\<lambda>q. if q_difficulty q = d then 1 else 0) rows)"

definition updateBucketCounts :: "nat \<Rightarrow> qstate \<Rightarrow> qstate" where
  "updateBucketCounts bucketId st =
     (let rows = active_in_bucket bucketId st;
          total = Some (int (length rows));
          easy = tier_sum Easy rows;
          medium = tier_sum Medium rows;
          hard = tier_sum Hard rows
      in case question_buckets st bucketId of
           None \<Rightarrow> st
         | Some b \<Rightarrow> st\<lparr>question_buckets := (question_buckets st)(bucketId \<mapsto>
                        b\<lparr>total_questions := total, easy_count := easy,
                          medium_count := medium, hard_count := hard\<rparr>)\<rparr>)"

text \<open>
  \<open>DELETE /api/admin/questions/:id\<close>: the bucket id is read first, the row is deleted,
  and when a row was deleted the counts of its bucket are recomputed.
\<close>

definition delete_question :: "nat \<Rightarrow> qstate \<Rightarrow> string reply \<times> qstate" where
  "delete_question questionId st =
     (let found = filter (\<lambda>q. q_id q = questionId) (questions_tbl st);
          st1 = st\<lparr>questions_tbl := filter (\<lambda>q. q_id q \<noteq> questionId) (questions_tbl st)\<rparr>
      in case found of
           [] \<Rightarrow> (Failed 404 ''Question not found'', st1)
         | q # _ \<Rightarrow> (Ok ''Question deleted successfully'', updateBucketCounts (bucket_id q) st1))"

text \<open>The number of active questions of a difficulty in a bucket, counted from the table.\<close>

definition live_count :: "difficulty \<Rightarrow> nat \<Rightarrow> qstate \<Rightarrow> int" where
  "live_count d bucketId st =
     int (length (filter (\<lambda>q. q_difficulty q = d) (active_in_bucket bucketId st)))"

subsection \<open>Compose a quiz from a bucket\<close>

record from_bucket_request =
  quizId :: string
  quizName :: string
  description :: string
  bucketId :: nat
  easyCount :: int
  mediumCount :: int
  hardCount :: int
  req_randomization_settings :: "string option"
  req_proctoring_settings :: "string option"
  totalQuestions :: int
  selectedQuestions :: "bucket_question list option"

record from_bucket_response =
  fb_message :: string
  fb_quizId :: string
  questionsSelected :: nat

text \<open>
  The map over \<open>selectedQuestions\<close>: \<open>{...q, options: JSON.parse(q.options), correct:
  q.correct_answer, points: q.points}\<close>. \<open>JSON.parse\<close> is a parameter; when it throws
  (\<open>None\<close>) for one question the handler answers 500.
\<close>

definition to_quiz_question :: "(string \<Rightarrow> options_field option) \<Rightarrow> bucket_question \<Rightarrow> quiz_question option" where
  "to_quiz_question JSON_parse q =
     map_option (\<lambda>parsed. \<lparr>question = None, options = parsed, correct = Some (correct_answer q),
                            originalOrder = None, points = q_points q, bucket_fields = Some q\<rparr>)
       (JSON_parse (q_options q))"

fun collect :: "'a option list \<Rightarrow> 'a list option" where
  "collect [] = Some []"
| "collect (None # xs) = None"
| "collect (Some x # xs) = map_option ((#) x) (collect xs)"

definition create_quiz_from_bucket ::
  "(string \<Rightarrow> options_field option) \<Rightarrow> from_bucket_request \<Rightarrow> qstate
     \<Rightarrow> from_bucket_response reply \<times> qstate" where
  "create_quiz_from_bucket JSON_parse req st =
     (case collect (map (to_quiz_question JSON_parse) (with_default [] (selectedQuestions req))) of
        None \<Rightarrow> (Failed 500 ''Failed to create quiz from bucket'', st)
      | Some quizQuestions \<Rightarrow>
          if quizzes st (quizId req) \<noteq> None
          then (Failed 400 ''Quiz with this ID already exists'', st)
          else
            let st1 = st\<lparr>quizzes := (quizzes st)(quizId req \<mapsto>
                        \<lparr>quiz_name = quizName req, quiz_description = description req,
                         quiz_questions = AsArray quizQuestions,
                         points_per_question = Some 1, is_custom = True,
                         randomization_settings =
                           Some (with_default ''{}'' (req_randomization_settings req)),
                         proctoring_settings =
                           Some (with_default ''{}'' (req_proctoring_settings req))\<rparr>)\<rparr>
            in if question_buckets st1 (bucketId req) = None
               then (Failed 500 ''Failed to create quiz from bucket'', st1)
               else (Ok \<lparr>fb_message = ''Quiz created successfully from bucket'',
                         fb_quizId = quizId req,
                         questionsSelected = length (with_default [] (selectedQuestions req))\<rparr>,
                     st1\<lparr>quiz_bucket_mappings := quiz_bucket_mappings st1 @
                          [\<lparr>m_quiz_id = quizId req, m_bucket_id = bucketId req,
                            m_easy_count = easyCount req, m_medium_count = mediumCount req,
                            m_hard_count = hardCount req,
                            m_total_questions = totalQuestions req\<rparr>]\<rparr>))"

subsection \<open>Deliver a quiz\<close>










text \<open>Concrete inputs used to evaluate the functions above.\<close>

definition demo_question :: "string \<Rightarrow> string list \<Rightarrow> int \<Rightarrow> quiz_question" where
  "demo_question t opts c =
     \<lparr>question = Some t, options = OptionArray opts, correct = Some c, originalOrder = None,
      points = None, bucket_fields = None\<rparr>"

definition demo_rng :: rng where
  "demo_rng = (\<lambda>n. if n = 0 then 3 / 4 else 1 / 2)"


definition demo_bucket_question :: "nat \<Rightarrow> difficulty \<Rightarrow> bucket_question" where
  "demo_bucket_question n d =
     \<lparr>q_id = n, bucket_id = 7, question_text = ''What is 1 + 1?'',
      q_options = ''[1,2]'', correct_answer = 1, q_difficulty = d,
      q_points = Some 1, is_active = True\<rparr>"

definition demo_store :: qstate where
  "demo_store =
     \<lparr>quizzes = [''broken'' \<mapsto>
         \<lparr>quiz_name = ''Broken'', quiz_description = ''stored text is cut off'',
          quiz_questions = AsText ''[{question:'', points_per_question = None,
          is_custom = True, randomization_settings = None, proctoring_settings = None\<rparr>],
      question_buckets = [7 \<mapsto>
         \<lparr>bucket_name = ''Arithmetic'', total_questions = Some 2, easy_count = Some 2,
          medium_count = Some 0, hard_count = Some 0\<rparr>],
      questions_tbl = [demo_bucket_question 41 Easy, demo_bucket_question 42 Easy],
      quiz_bucket_mappings = []\<rparr>"

definition demo_store_one :: qstate where
  "demo_store_one = snd (delete_question 41 demo_store)"

definition demo_request :: from_bucket_request where
  "demo_request =
     \<lparr>quizId = ''arith-1'', quizName = ''Arithmetic quiz'', description = ''from bucket 7'',
      bucketId = 7, easyCount = 5, mediumCount = 0, hardCount = 0,
      req_randomization_settings = None, req_proctoring_settings = None,
      totalQuestions = 5, selectedQuestions = None\<rparr>"




section \<open>Proctoring: facts about the session manager\<close>

lemma with_default_simps [simp]:
  "with_default d None = d" "with_default d (Some x) = x"
  by (simp_all add: with_default_def)

lemma init_consistent: "cache_consistent init_state"
  by (simp add: cache_consistent_def init_state_def)

lemma restart_consistent: "cache_consistent st \<Longrightarrow> cache_consistent (restart st)"
  by (simp add: cache_consistent_def restart_def session_violations_def)

lemma consistent_count:
  "cache_consistent st \<Longrightarrow> sessions st sid = Some row \<Longrightarrow>
     violation_count row = int (length (session_violations sid st))"
  unfolding cache_consistent_def by blast

lemma consistent_cached:
  assumes "cache_consistent st" and "activeSessions st sid = Some session"
    and "sessions st sid = Some row"
  shows "status row = Active"
    and "length (ms_violations session) = length (session_violations sid st)"
proof -
  from assms(1,2) have
    "(\<exists>row. sessions st sid = Some row \<and> status row = Active)
       \<and> length (ms_violations session) = length (session_violations sid st)"
    unfolding cache_consistent_def by blast
  with assms(3) show "status row = Active"
    and "length (ms_violations session) = length (session_violations sid st)"
    by auto
qed

lemma no_row_no_violations:
  "cache_consistent st \<Longrightarrow> sessions st sid = None \<Longrightarrow> session_violations sid st = []"
  by (auto simp: cache_consistent_def session_violations_def filter_empty_conv)

lemma startSession_consistent:
  assumes "cache_consistent st" and "startSession now sd st = Inr (r, st')"
  shows "cache_consistent st'"
proof -
  from assms(2) have none: "sessions st (sessionId sd) = None"
    by (auto simp: startSession_def split: if_splits)
  have nil: "session_violations (sessionId sd) st = []"
    using no_row_no_violations [OF assms(1) none] .
  from assms(2) none have st': "st' = st\<lparr>sessions := (sessions st)(sessionId sd \<mapsto>
                    \<lparr>user_email = userEmail sd, user_name = userName sd,
                     assessment_id = assessmentId sd,
                     level = with_default Basic (proctoringLevel sd),
                     status = Active, start_time = now, end_time = None,
                     violation_count = 0,
                     strict_mode = with_default False (strictMode sd),
                     settings_json = with_default ''{}'' (settings sd),
                     updated_at = now\<rparr>),
              activeSessions := (activeSessions st)(sessionId sd \<mapsto>
                    \<lparr>ms_data = sd, ms_violations = [],
                     ms_startTime = now, ms_lastActivity = now\<rparr>)\<rparr>"
    by (auto simp: startSession_def Let_def)
  have sv: "\<And>sid. session_violations sid st' = session_violations sid st"
    by (simp add: st' session_violations_def)
  show ?thesis
    using assms(1) nil unfolding cache_consistent_def sv
    by (auto simp: st')
qed

lemma endSession_consistent:
  "cache_consistent st \<Longrightarrow> endSession now sid reason_arg st = Inr (r, st') \<Longrightarrow> cache_consistent st'"
  by (cases "sessions st sid")
     (auto simp: cache_consistent_def endSession_def Let_def session_violations_def split: if_splits)

text \<open>The two store statements of logViolation, and what is left of the method after them.\<close>

lemma logViolation_tables:
  assumes "logViolation now sid vd st = Inr (lr, st')"
  shows "\<exists>row row'. sessions st sid = Some row
           \<and> sessions st' = (sessions st)(sid \<mapsto> row')
           \<and> violation_count row' = violation_count row + 1
           \<and> (status row' = status row \<or> status row' = Terminated)
           \<and> (activeSessions st sid = None \<longrightarrow> status row' = status row)
           \<and> (activeSessions st' sid \<noteq> None \<longrightarrow> status row' = status row)
           \<and> (\<exists>v. v_session_id v = sid \<and> violations_tbl st' = violations_tbl st @ [v])"
  using assms
  by (auto simp: logViolation_def Let_def terminateSession_def endSession_def
           split: option.splits if_splits)

lemma logViolation_cache:
  assumes "logViolation now sid vd st = Inr (lr, st')"
  shows "(\<forall>s. s \<noteq> sid \<longrightarrow> activeSessions st' s = activeSessions st s)
       \<and> (case activeSessions st sid of
            None \<Rightarrow> activeSessions st' sid = None \<and> violationCount lr = 0
          | Some session \<Rightarrow>
              violationCount lr = Suc (length (ms_violations session))
              \<and> (activeSessions st' sid = None \<or>
                 (\<exists>session'. activeSessions st' sid = Some session'
                    \<and> length (ms_violations session') = Suc (length (ms_violations session)))))"
  using assms
  by (auto simp: logViolation_def Let_def terminateSession_def endSession_def
           split: option.splits if_splits)

lemma logViolation_consistent:
  assumes c: "cache_consistent st" and l: "logViolation now sid vd st = Inr (lr, st')"
  shows "cache_consistent st'"
proof -
  from logViolation_tables [OF l] obtain row row' v where
    row: "sessions st sid = Some row" and
    ses: "sessions st' = (sessions st)(sid \<mapsto> row')" and
    cnt: "violation_count row' = violation_count row + 1" and
    stat: "status row' = status row \<or> status row' = Terminated" and
    stat2: "activeSessions st sid = None \<longrightarrow> status row' = status row" and
    stat3: "activeSessions st' sid \<noteq> None \<longrightarrow> status row' = status row" and
    v: "v_session_id v = sid" and tbl: "violations_tbl st' = violations_tbl st @ [v]"
    by (elim exE conjE) (rule that; assumption)
  have sv: "\<And>s. session_violations s st' =
              session_violations s st @ (if s = sid then [v] else [])"
    using v by (auto simp: session_violations_def tbl)
  note lc = logViolation_cache [OF l]
  have a: "\<forall>s r. sessions st' s = Some r \<longrightarrow>
        violation_count r = int (length (session_violations s st'))"
    using c row cnt by (auto simp: cache_consistent_def ses sv)
  have b: "\<forall>v \<in> set (violations_tbl st'). sessions st' (v_session_id v) \<noteq> None"
    using c v by (auto simp: cache_consistent_def ses tbl)
  have d: "\<forall>s session. activeSessions st' s = Some session \<longrightarrow>
        (\<exists>r. sessions st' s = Some r \<and> status r = Active)
        \<and> length (ms_violations session) = length (session_violations s st')"
  proof (intro allI impI)
    fix s session assume as: "activeSessions st' s = Some session"
    show "(\<exists>r. sessions st' s = Some r \<and> status r = Active)
        \<and> length (ms_violations session) = length (session_violations s st')"
    proof (cases "s = sid")
      case False
      with lc as have "activeSessions st s = Some session" by simp
      with c False show ?thesis by (auto simp: cache_consistent_def ses sv)
    next
      case True
      from as True lc obtain session0 where
        s0: "activeSessions st sid = Some session0"
        and len: "length (ms_violations session) = Suc (length (ms_violations session0))"
        by (auto split: option.splits)
      note act = consistent_cached(1) [OF c s0 row]
        and len0 = consistent_cached(2) [OF c s0 row]
      have "status row' = Active" using stat3 as True act by simp
      then show ?thesis using True len len0 by (simp add: ses sv)
    qed
  qed
  show ?thesis unfolding cache_consistent_def using a b d by blast
qed

lemma step_consistent: "step st st' \<Longrightarrow> cache_consistent st \<Longrightarrow> cache_consistent st'"
  by (induction rule: step.induct)
     (auto intro: startSession_consistent logViolation_consistent endSession_consistent
                  restart_consistent)

lemma reachable_consistent: "step\<^sup>*\<^sup>* init_state st \<Longrightarrow> cache_consistent st"
  by (induction rule: rtranclp_induct) (auto intro: init_consistent step_consistent)

lemma step_count_mono:
  assumes "step st st'" and "sessions st sid = Some row"
  shows "\<exists>row'. sessions st' sid = Some row' \<and> violation_count row \<le> violation_count row'"
  using assms
proof (induction rule: step.induct)
  case (step_start now sd st r st')
  then show ?case by (auto simp: startSession_def Let_def split: if_splits)
next
  case (step_log now s vd st lr st')
  from logViolation_tables [OF step_log(1)] step_log(2) show ?case
    by (cases "s = sid") auto
next
  case (step_end now s reason_arg st er st')
  then show ?case
    by (cases "s = sid") (auto simp: endSession_def Let_def split: option.splits)
next
  case (step_restart st)
  then show ?case by (simp add: restart_def)
qed

lemma steps_count_mono:
  assumes "step\<^sup>*\<^sup>* st st'" and "sessions st sid = Some row"
  shows "\<exists>row'. sessions st' sid = Some row' \<and> violation_count row \<le> violation_count row'"
  using assms
proof (induction rule: rtranclp_induct)
  case base
  then show ?case by simp
next
  case (step y z)
  then obtain r where r: "sessions y sid = Some r" "violation_count row \<le> violation_count r"
    by auto
  from step_count_mono [OF step(2) r(1)] r(2) show ?case by fastforce
qed

lemma steps_start: "step\<^sup>*\<^sup>* st (state_after st (startSession now sd st))"
  by (cases "startSession now sd st") (auto simp: state_after_def intro: step_start)

lemma steps_log: "step\<^sup>*\<^sup>* st (state_after st (logViolation now sid vd st))"
  by (cases "logViolation now sid vd st") (auto simp: state_after_def intro: step_log)

lemma steps_end: "step\<^sup>*\<^sup>* st (state_after st (endSession now sid reason_arg st))"
  by (cases "endSession now sid reason_arg st") (auto simp: state_after_def intro: step_end)

lemma demo_started_reachable: "step\<^sup>*\<^sup>* init_state demo_started"
  unfolding demo_started_def by (rule steps_start)

lemma demo_one_logged_reachable: "step\<^sup>*\<^sup>* init_state demo_one_logged"
  unfolding demo_one_logged_def
  by (rule rtranclp_trans [OF demo_started_reachable steps_log])

lemma demo_two_logged_reachable: "step\<^sup>*\<^sup>* init_state demo_two_logged"
  unfolding demo_two_logged_def
  by (rule rtranclp_trans [OF demo_one_logged_reachable steps_log])

lemma demo_ended_reachable: "step\<^sup>*\<^sup>* init_state demo_ended"
  unfolding demo_ended_def
  by (rule rtranclp_trans [OF demo_started_reachable steps_end])

lemmas demo_defs = demo_data_def demo_violation_def demo_started_def demo_one_logged_def
  demo_two_logged_def demo_ended_def state_after_def response_of_def init_state_def
  startSession_def logViolation_def endSession_def terminateSession_def restart_def
  session_violations_def Let_def

text \<open>
  C1, as the code has it. A session that was started in strict mode and is still held in
  \<open>activeSessions\<close> (no restart and no \<open>endSession\<close> since it was started) has two stored
  violations. Then the next \<open>logViolation\<close> call, whatever the violation, succeeds, answers
  \<open>{success: true, violationCount: 3}\<close>, and within the same call sets the stored status
  to \<open>terminated\<close> with the end time of the call and removes the session from the map.
  The answer has no other field: the count is all it says about the session being closed.
\<close>

theorem strict_third_violation_terminates:
  assumes "step\<^sup>*\<^sup>* init_state st"
    and "map_option (\<lambda>s. strictMode (ms_data s)) (activeSessions st sid) = Some (Some True)"
    and "length (session_violations sid st) = 2"
  shows "\<exists>st' row'. logViolation now sid vd st =
                        Inr (\<lparr>log_success = True, violationCount = 3\<rparr>, st')
           \<and> sessions st' sid = Some row' \<and> status row' = Terminated
           \<and> end_time row' = Some now \<and> violation_count row' = 3
           \<and> activeSessions st' sid = None
           \<and> length (session_violations sid st') = 3"
proof -
  note c = reachable_consistent [OF assms(1)]
  from assms(2) obtain session where s: "activeSessions st sid = Some session"
    and strict: "strictMode (ms_data session) = Some True"
    by auto
  from c s obtain row where row: "sessions st sid = Some row"
    unfolding cache_consistent_def by blast
  from consistent_cached(2) [OF c s row] assms(3) have len: "length (ms_violations session) = 2"
    by simp
  from consistent_count [OF c row] assms(3) have cnt: "violation_count row = 2"
    by simp
  show ?thesis
    using s strict row len cnt assms(3)
    by (simp add: logViolation_def terminateSession_def endSession_def Let_def
                  session_violations_def)
qed

theorem strict_third_violation_terminates_witness:
  "response_of (logViolation 103 ''sess-1'' (demo_violation copy_paste) demo_two_logged)
     = Some \<lparr>log_success = True, violationCount = 3\<rparr>
   \<and> map_option status (sessions (state_after demo_two_logged
         (logViolation 103 ''sess-1'' (demo_violation copy_paste) demo_two_logged)) ''sess-1'')
     = Some Terminated"
proof -
  have h2: "map_option (\<lambda>s. strictMode (ms_data s)) (activeSessions demo_two_logged ''sess-1'')
              = Some (Some True)"
    by (simp add: demo_defs)
  have h3: "length (session_violations ''sess-1'' demo_two_logged) = 2"
    by (simp add: demo_defs)
  from strict_third_violation_terminates [OF demo_two_logged_reachable h2 h3,
      of 103 "demo_violation copy_paste"]
  show ?thesis by (auto simp: state_after_def response_of_def)
qed

text \<open>
  C1 as stated fails when the process restarts before the third violation: the call
  stores the third violation, answers with count 0 and leaves the status \<open>active\<close>.
\<close>

theorem strict_third_violation_counterexample:
  "strictMode demo_data = Some True
   \<and> length (session_violations ''sess-1'' (restart demo_two_logged)) = 2
   \<and> response_of (logViolation 103 ''sess-1'' (demo_violation tab_switch) (restart demo_two_logged))
       = Some \<lparr>log_success = True, violationCount = 0\<rparr>
   \<and> map_option status (sessions (state_after (restart demo_two_logged)
         (logViolation 103 ''sess-1'' (demo_violation tab_switch) (restart demo_two_logged))) ''sess-1'')
       = Some Active
   \<and> length (session_violations ''sess-1'' (state_after (restart demo_two_logged)
         (logViolation 103 ''sess-1'' (demo_violation tab_switch) (restart demo_two_logged)))) = 3"
  by (simp add: demo_defs)

text \<open>
  C7, as the code has it. In every reachable state: what \<open>getSession\<close> returns has a
  counter equal to the joined count and to the number of violations it lists, which are
  the stored violations of the session; the counter of a session never decreases along
  later steps; and a successful \<open>logViolation\<close> stores exactly one more violation for the
  session and answers with the new stored number when the session is in \<open>activeSessions\<close>
  and with 0 when it is not.
\<close>

theorem violation_count_matches_store:
  assumes "step\<^sup>*\<^sup>* init_state st"
  shows "(\<forall>sid view. getSession sid st = Inr (Some view) \<longrightarrow>
            violation_count (sv_row view) = int (total_violations view)
          \<and> total_violations view = length (sv_violations view)
          \<and> mset (sv_violations view) = mset (session_violations sid st))
       \<and> (\<forall>st' sid row. step\<^sup>*\<^sup>* st st' \<and> sessions st sid = Some row \<longrightarrow>
            (\<exists>row'. sessions st' sid = Some row' \<and> violation_count row \<le> violation_count row'))
       \<and> (\<forall>now sid vd lr st'. logViolation now sid vd st = Inr (lr, st') \<longrightarrow>
            length (session_violations sid st') = Suc (length (session_violations sid st))
          \<and> violationCount lr =
              (if activeSessions st sid = None then 0 else length (session_violations sid st')))"
proof (intro conjI allI impI)
  note c = reachable_consistent [OF assms]
  { fix sid view assume g: "getSession sid st = Inr (Some view)"
    then obtain row where row: "sessions st sid = Some row"
      and view: "view = \<lparr>sv_row = row, total_violations = length (session_violations sid st),
                     sv_violations = rev (sort_key v_timestamp (session_violations sid st))\<rparr>"
      by (auto simp: getSession_def split: option.splits)
    from consistent_count [OF c row] view
    show "violation_count (sv_row view) = int (total_violations view)" by simp
    from view show "total_violations view = length (sv_violations view)" by simp
    from view show "mset (sv_violations view) = mset (session_violations sid st)" by simp
  }
  { fix st' sid row assume "step\<^sup>*\<^sup>* st st' \<and> sessions st sid = Some row"
    then show "\<exists>row'. sessions st' sid = Some row' \<and> violation_count row \<le> violation_count row'"
      using steps_count_mono by blast
  }
  { fix now sid vd lr st' assume l: "logViolation now sid vd st = Inr (lr, st')"
    from logViolation_tables [OF l] obtain row v where
      row: "sessions st sid = Some row" and
      v: "v_session_id v = sid" and tbl: "violations_tbl st' = violations_tbl st @ [v]"
      by (elim exE conjE) (rule that; assumption)
    from v tbl show len: "length (session_violations sid st') = Suc (length (session_violations sid st))"
      by (simp add: session_violations_def)
    show "violationCount lr =
              (if activeSessions st sid = None then 0 else length (session_violations sid st'))"
    proof (cases "activeSessions st sid")
      case None
      with logViolation_cache [OF l] show ?thesis by simp
    next
      case (Some session)
      with logViolation_cache [OF l] consistent_cached(2) [OF c Some row] len
      show ?thesis by simp
    qed
  }
qed

theorem violation_count_matches_store_witness:
  "map_option (\<lambda>v. (violation_count (sv_row v), total_violations v, length (sv_violations v)))
      (projr (getSession ''sess-1'' demo_two_logged)) = Some (2, 2, 2)
   \<and> response_of (logViolation 103 ''sess-1'' (demo_violation copy_paste) demo_two_logged)
       = Some \<lparr>log_success = True, violationCount = 3\<rparr>"
  using violation_count_matches_store [OF demo_two_logged_reachable]
  by (simp add: demo_defs getSession_def)

text \<open>
  C7 as stated fails for the count a \<open>logViolation\<close> call returns: 1 for the first
  violation, then, after a restart, 0 for the second, with two violations stored.
\<close>

theorem violation_count_counterexample:
  "response_of (logViolation 101 ''sess-1'' (demo_violation tab_switch) demo_started)
       = Some \<lparr>log_success = True, violationCount = 1\<rparr>
   \<and> response_of (logViolation 102 ''sess-1'' (demo_violation no_face) (restart demo_one_logged))
       = Some \<lparr>log_success = True, violationCount = 0\<rparr>
   \<and> length (session_violations ''sess-1'' (state_after (restart demo_one_logged)
        (logViolation 102 ''sess-1'' (demo_violation no_face) (restart demo_one_logged)))) = 2"
  by (simp add: demo_defs)

text \<open>
  C4, as the code has it. \<open>logViolation\<close> for a session id without a row fails: the store
  rejects the insert (foreign key) and the method rethrows. For a session whose row is
  \<open>completed\<close> or \<open>terminated\<close>, in any reachable state, the call does not fail: it stores
  the violation, adds one to the counter, keeps the status and answers with success and
  count 0.
\<close>

theorem logViolation_unknown_or_ended:
  assumes "step\<^sup>*\<^sup>* init_state st"
  shows "(sessions st sid = None \<longrightarrow> logViolation now sid vd st = Inl ER_NO_REFERENCED_ROW)
       \<and> (\<forall>row. sessions st sid = Some row \<and> (status row = Completed \<or> status row = Terminated) \<longrightarrow>
            (\<exists>st' row'. logViolation now sid vd st =
                           Inr (\<lparr>log_success = True, violationCount = 0\<rparr>, st')
               \<and> sessions st' sid = Some row' \<and> status row' = status row
               \<and> violation_count row' = violation_count row + 1
               \<and> length (session_violations sid st') = Suc (length (session_violations sid st))))"
proof (intro conjI allI impI)
  show "logViolation now sid vd st = Inl ER_NO_REFERENCED_ROW" if "sessions st sid = None"
    using that by (simp add: logViolation_def)
next
  fix row assume a: "sessions st sid = Some row \<and> (status row = Completed \<or> status row = Terminated)"
  note c = reachable_consistent [OF assms]
  have "activeSessions st sid = None"
  proof (cases "activeSessions st sid")
    case (Some session)
    from consistent_cached(1) [OF c Some] a show ?thesis by auto
  qed simp
  with a show "\<exists>st' row'. logViolation now sid vd st =
                           Inr (\<lparr>log_success = True, violationCount = 0\<rparr>, st')
               \<and> sessions st' sid = Some row' \<and> status row' = status row
               \<and> violation_count row' = violation_count row + 1
               \<and> length (session_violations sid st') = Suc (length (session_violations sid st))"
    by (simp add: logViolation_def Let_def session_violations_def)
qed

theorem logViolation_unknown_or_ended_witness:
  "logViolation 106 ''sess-2'' (demo_violation tab_switch) demo_ended = Inl ER_NO_REFERENCED_ROW
   \<and> map_option status (sessions demo_ended ''sess-1'') = Some Completed
   \<and> response_of (logViolation 106 ''sess-1'' (demo_violation tab_switch) demo_ended)
       = Some \<lparr>log_success = True, violationCount = 0\<rparr>"
  using logViolation_unknown_or_ended [OF demo_ended_reachable, of "''sess-2''" 106 "demo_violation tab_switch"]
  by (simp add: demo_defs)

text \<open>
  C4 as stated fails after \<open>endSession\<close>: the call on the completed session succeeds.
\<close>

theorem logViolation_after_end_counterexample:
  "map_option status (sessions demo_ended ''sess-1'') = Some Completed
   \<and> response_of (logViolation 106 ''sess-1'' (demo_violation tab_switch) demo_ended)
       = Some \<lparr>log_success = True, violationCount = 0\<rparr>
   \<and> length (session_violations ''sess-1'' demo_ended) = 0
   \<and> length (session_violations ''sess-1'' (state_after demo_ended
        (logViolation 106 ''sess-1'' (demo_violation tab_switch) demo_ended))) = 1
   \<and> map_option violation_count (sessions (state_after demo_ended
        (logViolation 106 ''sess-1'' (demo_violation tab_switch) demo_ended)) ''sess-1'') = Some 1"
  by (simp add: demo_defs)

text \<open>
  C5, as the code has it. \<open>endSession\<close> on a session that is already \<open>completed\<close> or
  \<open>terminated\<close> succeeds and answers with the reason of this call. It is no no-op: the
  status is set again from the reason of this call and the end time is set to the time
  of this call.
\<close>

theorem endSession_on_terminal:
  assumes "sessions st sid = Some row" and "status row = Completed \<or> status row = Terminated"
  shows "endSession now sid reason_arg st =
           Inr (\<lparr>end_success = True, end_reason = with_default ''completed'' reason_arg\<rparr>,
                st\<lparr>sessions := (sessions st)(sid \<mapsto>
                       row\<lparr>status := (if with_default ''completed'' reason_arg = ''completed''
                                       then Completed else Terminated),
                           end_time := Some now, updated_at := now\<rparr>),
                   activeSessions := (activeSessions st)(sid := None)\<rparr>)"
  using assms(1) by (simp add: endSession_def Let_def)

theorem endSession_on_terminal_witness:
  "map_option status (sessions demo_ended ''sess-1'') = Some Completed
   \<and> response_of (endSession 109 ''sess-1'' (Some ''completed'') demo_ended)
       = Some \<lparr>end_success = True, end_reason = ''completed''\<rparr>
   \<and> map_option status (sessions (state_after demo_ended
        (endSession 109 ''sess-1'' (Some ''completed'') demo_ended)) ''sess-1'') = Some Completed
   \<and> map_option end_time (sessions (state_after demo_ended
        (endSession 109 ''sess-1'' (Some ''completed'') demo_ended)) ''sess-1'') = Some (Some 109)"
proof -
  have h1: "sessions demo_ended ''sess-1'' = Some (the (sessions demo_ended ''sess-1''))"
    by (simp add: demo_defs)
  have h2: "status (the (sessions demo_ended ''sess-1'')) = Completed
          \<or> status (the (sessions demo_ended ''sess-1'')) = Terminated"
    by (simp add: demo_defs)
  from endSession_on_terminal [OF h1 h2, of 109 "Some ''completed''"]
  show ?thesis by (simp add: state_after_def response_of_def) (simp add: demo_defs)
qed

text \<open>
  C5 as stated fails: a session completed at 105 and ended again at 109 with another
  reason is \<open>terminated\<close> with end time 109.
\<close>

theorem endSession_idempotent_counterexample:
  "map_option status (sessions demo_ended ''sess-1'') = Some Completed
   \<and> map_option end_time (sessions demo_ended ''sess-1'') = Some (Some 105)
   \<and> map_option status (sessions (state_after demo_ended
        (endSession 109 ''sess-1'' (Some ''user_left'') demo_ended)) ''sess-1'') = Some Terminated
   \<and> map_option end_time (sessions (state_after demo_ended
        (endSession 109 ''sess-1'' (Some ''user_left'') demo_ended)) ''sess-1'') = Some (Some 109)"
  by (simp add: demo_defs)

text \<open>
  C10. \<open>endSession\<close> never fails, whether the session id has a row or not, and answers
  with success and the reason it was given (\<open>completed\<close> when none was given). Where a row
  exists, its status afterwards is \<open>completed\<close> exactly when the reason is the string
  \<open>completed\<close> and \<open>terminated\<close> for every other reason; every reason built by
  \<open>terminateSession\<close> gives \<open>terminated\<close>. Without a row the table is left as it was.
\<close>

theorem endSession_reason_status:
  "\<exists>st'. endSession now sid reason_arg st =
            Inr (\<lparr>end_success = True, end_reason = with_default ''completed'' reason_arg\<rparr>, st')
     \<and> (\<forall>row. sessions st sid = Some row \<longrightarrow>
           (\<exists>row'. sessions st' sid = Some row'
              \<and> (status row' = Completed \<longleftrightarrow> with_default ''completed'' reason_arg = ''completed'')
              \<and> (status row' = Terminated \<longleftrightarrow> with_default ''completed'' reason_arg \<noteq> ''completed'')))
     \<and> (sessions st sid = None \<longrightarrow> sessions st' = sessions st)
     \<and> (\<forall>row r. sessions st sid = Some row \<longrightarrow>
           (\<exists>resp st'' row'. terminateSession now sid r st = Inr (resp, st'')
              \<and> end_success resp \<and> sessions st'' sid = Some row' \<and> status row' = Terminated))"
  by (cases "sessions st sid")
     (auto simp: endSession_def terminateSession_def with_default_def Let_def split: option.splits)

theorem endSession_reason_status_witness:
  "endSession 5 ''nope'' (Some ''Completed'') init_state =
     Inr (\<lparr>end_success = True, end_reason = ''Completed''\<rparr>, init_state)
   \<and> map_option status (sessions (snd (projr (endSession 5 ''s1'' (Some ''Completed'')
        (snd (projr (startSession 1 \<lparr>sessionId = ''s1'', userEmail = ''a@b.c'', userName = ''a'',
           assessmentId = ''js'', proctoringLevel = None, strictMode = None,
           settings = None\<rparr> init_state)))))) ''s1'') = Some Terminated
   \<and> map_option status (sessions (snd (projr (endSession 5 ''s1'' None
        (snd (projr (startSession 1 \<lparr>sessionId = ''s1'', userEmail = ''a@b.c'', userName = ''a'',
           assessmentId = ''js'', proctoringLevel = None, strictMode = None,
           settings = None\<rparr> init_state)))))) ''s1'') = Some Completed"
  using endSession_reason_status [of 5 "''nope''" "Some ''Completed''" init_state]
  by (simp add: endSession_def startSession_def init_state_def with_default_def Let_def)

section \<open>Randomization: shuffle, options, limit\<close>

lemma random_index_le:
  assumes "0 \<le> r" and "r < 1"
  shows "random_index r i \<le> i"
proof -
  have "r * real (i + 1) < real (i + 1)" using assms by simp
  then have "\<lfloor>r * real (i + 1)\<rfloor> < int (i + 1)" by (simp add: floor_less_iff)
  then show ?thesis by (simp add: random_index_def)
qed

lemma unit_interval_next: "unit_interval g \<Longrightarrow> unit_interval (next_rng g)"
  by (simp add: unit_interval_def next_rng_def)

lemma mset_swap_list:
  "i < length xs \<Longrightarrow> j < length xs \<Longrightarrow> mset (swap xs i j) = mset xs"
  unfolding swap_def by (simp add: mset_swap)

lemma length_swap [simp]: "length (swap xs i j) = length xs"
  by (simp add: swap_def)

lemma shuffle_from_props:
  assumes "unit_interval g" and "k < length xs \<or> k = 0"
  shows "mset (fst (shuffle_from k g xs)) = mset xs
       \<and> unit_interval (snd (shuffle_from k g xs))"
  using assms
proof (induction k arbitrary: g xs)
  case 0
  then show ?case by simp
next
  case (Suc k)
  from Suc.prems have lt: "Suc k < length xs" by simp
  from Suc.prems(1) have "0 \<le> g 0" "g 0 < 1" by (simp_all add: unit_interval_def)
  then have j: "random_index (g 0) (Suc k) < length xs"
    using random_index_le [of "g 0" "Suc k"] lt by simp
  have "mset (swap xs (Suc k) (random_index (g 0) (Suc k))) = mset xs"
    by (rule mset_swap_list [OF lt j])
  moreover have "k < length (swap xs (Suc k) (random_index (g 0) (Suc k))) \<or> k = 0"
    using lt by simp
  ultimately show ?case
    using Suc.IH [OF unit_interval_next [OF Suc.prems(1)], of "swap xs (Suc k) (random_index (g 0) (Suc k))"]
    by simp
qed

lemma shuffleArray_props:
  assumes "unit_interval g"
  shows "mset (fst (shuffleArray g xs)) = mset xs" and "unit_interval (snd (shuffleArray g xs))"
proof -
  have "length xs - 1 < length xs \<or> length xs - 1 = 0" by (cases xs) auto
  from shuffle_from_props [OF assms this]
  show "mset (fst (shuffleArray g xs)) = mset xs" and "unit_interval (snd (shuffleArray g xs))"
    by (simp_all add: shuffleArray_def)
qed

lemma indexOf_notin: "v \<notin> set xs \<Longrightarrow> indexOf xs v = - 1"
  by (induction xs) (auto simp: Let_def)

lemma indexOf_in:
  "v \<in> set xs \<Longrightarrow> 0 \<le> indexOf xs v \<and> indexOf xs v < int (length xs) \<and> xs ! nat (indexOf xs v) = v"
proof (induction xs)
  case Nil
  then show ?case by simp
next
  case (Cons x xs)
  show ?case
  proof (cases "x = v")
    case True
    then show ?thesis by simp
  next
    case False
    with Cons.prems have "v \<in> set xs" by simp
    from Cons.IH [OF this] False show ?thesis
      by (simp add: Let_def nat_add_distrib)
  qed
qed

lemma element_at_indexOf:
  assumes "mset ys = mset xs" and "element_at xs i = Some a"
  shows "element_at ys (Some (indexOf ys a)) = Some a"
proof -
  from assms(2) have "a \<in> set xs"
    by (auto simp: element_at_def split: option.splits if_splits)
  with assms(1) have "a \<in> set ys" by (metis set_mset_mset)
  from indexOf_in [OF this] show ?thesis by (simp add: element_at_def)
qed

lemma randomizeQuestionOptions_shuffled:
  assumes "unit_interval g"
  shows "option_shuffled q (fst (randomizeQuestionOptions g q))"
    and "unit_interval (snd (randomizeQuestionOptions g q))"
proof -
  show "option_shuffled q (fst (randomizeQuestionOptions g q))"
  proof (cases "options q")
    case (OptionArray opts)
    obtain ys g' where sh: "shuffleArray g opts = (ys, g')" by (cases "shuffleArray g opts")
    with shuffleArray_props(1) [OF assms, of opts] have m: "mset ys = mset opts" by simp
    show ?thesis
    proof (cases "element_at opts (correct q)")
      case None
      then show ?thesis
        using OptionArray sh m
        by (simp add: option_shuffled_def randomizeQuestionOptions_def element_at_def)
    next
      case (Some a)
      from element_at_indexOf [OF m Some] Some show ?thesis
        using OptionArray sh m
        by (simp add: option_shuffled_def randomizeQuestionOptions_def)
    qed
  qed (simp_all add: option_shuffled_def randomizeQuestionOptions_def)
  show "unit_interval (snd (randomizeQuestionOptions g q))"
  proof (cases "options q")
    case (OptionArray opts)
    obtain ys g' where sh: "shuffleArray g opts = (ys, g')" by (cases "shuffleArray g opts")
    with shuffleArray_props(2) [OF assms, of opts] have "unit_interval g'" by simp
    then show ?thesis using OptionArray sh by (simp add: randomizeQuestionOptions_def)
  qed (simp_all add: randomizeQuestionOptions_def assms)
qed

lemma map_rng_length [simp]: "length (fst (map_rng f g xs)) = length xs"
proof (induction xs arbitrary: g)
  case Nil
  then show ?case by simp
next
  case (Cons x xs)
  obtain y g1 where f: "f g x = (y, g1)" by (cases "f g x")
  obtain ys g2 where r: "map_rng f g1 xs = (ys, g2)" by (cases "map_rng f g1 xs")
  from Cons.IH [of g1] r show ?case by (simp add: f)
qed


text \<open>
  C2. With draws in \<open>[0, 1)\<close>: for a question whose \<open>options\<close> is an array, the result's
  options are a permutation of it (same multiset), the element at the new \<open>correct\<close> index
  is the element that was at the old one (both are undefined when the old index was
  missing or out of range), \<open>originalOrder\<close> is the array as it was, and every other field
  is kept. A question whose \<open>options\<close> is missing or not an array is returned as it is,
  without a draw.
\<close>

theorem randomizeQuestionOptions_permutes:
  assumes "unit_interval g"
  shows "(\<forall>opts. options q = OptionArray opts \<longrightarrow>
            (\<exists>shuffled. options (fst (randomizeQuestionOptions g q)) = OptionArray shuffled
               \<and> mset shuffled = mset opts
               \<and> element_at shuffled (correct (fst (randomizeQuestionOptions g q)))
                   = element_at opts (correct q)
               \<and> originalOrder (fst (randomizeQuestionOptions g q)) = Some opts
               \<and> question (fst (randomizeQuestionOptions g q)) = question q
               \<and> points (fst (randomizeQuestionOptions g q)) = points q
               \<and> bucket_fields (fst (randomizeQuestionOptions g q)) = bucket_fields q
               \<and> quiz_question.more (fst (randomizeQuestionOptions g q)) = quiz_question.more q))
       \<and> ((\<forall>opts. options q \<noteq> OptionArray opts) \<longrightarrow> randomizeQuestionOptions g q = (q, g))"
proof (intro conjI allI impI)
  fix opts assume o: "options q = OptionArray opts"
  from randomizeQuestionOptions_shuffled(1) [OF assms, of q] o
  show "\<exists>shuffled. options (fst (randomizeQuestionOptions g q)) = OptionArray shuffled
               \<and> mset shuffled = mset opts
               \<and> element_at shuffled (correct (fst (randomizeQuestionOptions g q)))
                   = element_at opts (correct q)
               \<and> originalOrder (fst (randomizeQuestionOptions g q)) = Some opts
               \<and> question (fst (randomizeQuestionOptions g q)) = question q
               \<and> points (fst (randomizeQuestionOptions g q)) = points q
               \<and> bucket_fields (fst (randomizeQuestionOptions g q)) = bucket_fields q
               \<and> quiz_question.more (fst (randomizeQuestionOptions g q)) = quiz_question.more q"
    by (auto simp: option_shuffled_def split: options_field.splits)
next
  assume "\<forall>opts. options q \<noteq> OptionArray opts"
  then show "randomizeQuestionOptions g q = (q, g)"
    by (cases "options q") (simp_all add: randomizeQuestionOptions_def)
qed

lemma demo_rng_unit: "unit_interval demo_rng"
  by (simp add: unit_interval_def demo_rng_def)

lemmas quiz_eval = shuffleArray_def numeral_eq_Suc swap_def random_index_def next_rng_def
  randomizeQuestionOptions_def element_at_def demo_question_def demo_rng_def Let_def

theorem randomizeQuestionOptions_permutes_witness:
  "fst (randomizeQuestionOptions demo_rng (demo_question ''Q1'' [''a'', ''b'', ''c'', ''d''] 1))
     = \<lparr>question = Some ''Q1'', options = OptionArray [''a'', ''c'', ''b'', ''d''],
        correct = Some 2, originalOrder = Some [''a'', ''b'', ''c'', ''d''],
        points = None, bucket_fields = None\<rparr>
   \<and> mset [''a'', ''c'', ''b'', ''d''] = mset [''a'', ''b'', ''c'', ''d'']"
  using randomizeQuestionOptions_permutes [OF demo_rng_unit,
      of "demo_question ''Q1'' [''a'', ''b'', ''c'', ''d''] 1"]
  by (simp add: quiz_eval)







subsection \<open>The same on the heap\<close>















lemma read_string_Str [simp]: "read_string (Str s) = s"
  by (simp add: read_string_def)

lemma read_string_comp [simp]: "read_string \<circ> Str = (\<lambda>s. s)"
  by (simp add: fun_eq_iff)

lemma read_string_map_Str [simp]: "map read_string (map Str ss) = ss"
  by simp



















section \<open>Quiz delivery, composition from a bucket, bucket counts\<close>




text \<open>
  C6. The handler does not read the bucket's questions and compares no quota with the
  bucket: for a bucket with two active easy questions and a request for five, without
  \<open>selectedQuestions\<close>, it answers that the quiz was created, stores a quiz without
  questions and a mapping row with \<open>easy_count = 5\<close>. (Its answer is the same for every
  content of the table of questions: lemma \<open>from_bucket_ignores_questions\<close>.)
\<close>

theorem from_bucket_ignores_quota:
  "map_option easy_count (question_buckets demo_store 7) = Some (Some 2)
   \<and> live_count Easy 7 demo_store = 2
   \<and> easyCount demo_request = 5
   \<and> fst (create_quiz_from_bucket (\<lambda>s. None) demo_request demo_store)
       = Ok \<lparr>fb_message = ''Quiz created successfully from bucket'', fb_quizId = ''arith-1'',
             questionsSelected = 0\<rparr>
   \<and> map_option quiz_questions
         (quizzes (snd (create_quiz_from_bucket (\<lambda>s. None) demo_request demo_store)) ''arith-1'')
       = Some (AsArray [])
   \<and> map m_easy_count
         (quiz_bucket_mappings (snd (create_quiz_from_bucket (\<lambda>s. None) demo_request demo_store)))
       = [5]"
  by (simp add: create_quiz_from_bucket_def demo_request_def demo_store_def live_count_def
                active_in_bucket_def demo_bucket_question_def with_default_def Let_def)

lemma from_bucket_ignores_questions:
  "fst (create_quiz_from_bucket JSON_parse req (st\<lparr>questions_tbl := qs\<rparr>))
     = fst (create_quiz_from_bucket JSON_parse req st)"
  by (auto simp: create_quiz_from_bucket_def Let_def split: option.splits)

lemma tier_sum_nonempty:
  "rows \<noteq> [] \<Longrightarrow> tier_sum d rows = Some (int (length (filter (\<lambda>q. q_difficulty q = d) rows)))"
proof -
  have "sum_list (map (\<lambda>q. if q_difficulty q = d then 1 else 0) rows)
          = int (length (filter (\<lambda>q. q_difficulty q = d) rows))" for rows :: "bucket_question list"
    by (induction rows) auto
  then show "rows \<noteq> [] \<Longrightarrow> ?thesis" by (simp add: tier_sum_def sql_sum_def)
qed

lemma tier_sum_empty: "tier_sum d [] = None"
  by (simp add: tier_sum_def sql_sum_def)

lemma tiers_partition:
  "length (filter (\<lambda>q. q_difficulty q = Easy) rows)
     + length (filter (\<lambda>q. q_difficulty q = Medium) rows)
     + length (filter (\<lambda>q. q_difficulty q = Hard) rows) = length (rows :: bucket_question list)"
proof (induction rows)
  case Nil
  then show ?case by simp
next
  case (Cons q rows)
  then show ?case by (cases "q_difficulty q") simp_all
qed

lemma updateBucketCounts_row:
  assumes "question_buckets st b = Some row"
  shows "question_buckets (updateBucketCounts b st) b =
           Some (row\<lparr>total_questions := Some (int (length (active_in_bucket b st))),
                     easy_count := tier_sum Easy (active_in_bucket b st),
                     medium_count := tier_sum Medium (active_in_bucket b st),
                     hard_count := tier_sum Hard (active_in_bucket b st)\<rparr>)"
    and "questions_tbl (updateBucketCounts b st) = questions_tbl st"
  using assms by (simp_all add: updateBucketCounts_def Let_def)

lemma updateBucketCounts_nonempty:
  assumes "question_buckets st b = Some row" and "active_in_bucket b st \<noteq> []"
  shows "\<exists>row'. question_buckets (updateBucketCounts b st) b = Some row'
           \<and> easy_count row' = Some (live_count Easy b (updateBucketCounts b st))
           \<and> medium_count row' = Some (live_count Medium b (updateBucketCounts b st))
           \<and> hard_count row' = Some (live_count Hard b (updateBucketCounts b st))
           \<and> total_questions row' = Some (live_count Easy b (updateBucketCounts b st)
                + live_count Medium b (updateBucketCounts b st)
                + live_count Hard b (updateBucketCounts b st))"
proof -
  have same: "active_in_bucket b (updateBucketCounts b st) = active_in_bucket b st"
    using updateBucketCounts_row(2) [OF assms(1)] by (simp add: active_in_bucket_def)
  have "int (length (active_in_bucket b st))
          = live_count Easy b st + live_count Medium b st + live_count Hard b st"
    using tiers_partition [of "active_in_bucket b st"] by (simp add: live_count_def)
  then show ?thesis
    using updateBucketCounts_row(1) [OF assms(1)] tier_sum_nonempty [OF assms(2)] same
    by (simp add: live_count_def)
qed

text \<open>
  C9. Deleting the last active question of a bucket leaves \<open>total_questions = 0\<close> and the
  three counters per difficulty \<open>NULL\<close>, while the live counts are 0. (When an active
  question remains, the counters are the live counts and add up to the total: lemma
  \<open>updateBucketCounts_nonempty\<close>.)
\<close>

theorem delete_last_question_counts:
  "map_option easy_count (question_buckets demo_store_one 7) = Some (Some 1)
   \<and> fst (delete_question 42 demo_store_one) = Ok ''Question deleted successfully''
   \<and> live_count Easy 7 (snd (delete_question 42 demo_store_one)) = 0
   \<and> map_option total_questions (question_buckets (snd (delete_question 42 demo_store_one)) 7)
       = Some (Some 0)
   \<and> map_option easy_count (question_buckets (snd (delete_question 42 demo_store_one)) 7)
       = Some None
   \<and> map_option medium_count (question_buckets (snd (delete_question 42 demo_store_one)) 7)
       = Some None
   \<and> map_option hard_count (question_buckets (snd (delete_question 42 demo_store_one)) 7)
       = Some None"
  by (simp add: demo_store_one_def delete_question_def demo_store_def demo_bucket_question_def
                updateBucketCounts_def active_in_bucket_def tier_sum_def sql_sum_def
                live_count_def Let_def)

end
